theory Spec2Isabelle
  imports Main "HOL-Library.Sublist"
begin

section \<open>Data model of \<^verbatim>\<open>layer_linter/contract.py\<close>\<close>

text \<open>
  The exceptions the module can raise. \<open>ValueError\<close> comes from \<open>list.index\<close>,
  \<open>list.remove\<close> and from the whitelist parser, \<open>RuntimeError\<close> from \<open>is_kept\<close>,
  \<open>AttributeError\<close> from reading \<open>illegal_dependencies\<close> before it was assigned,
  \<open>KeyError\<close> from a key missing in the configuration dictionary.
\<close>

datatype error = ValueError | RuntimeError | AttributeError | KeyError

text \<open>
  \<open>class Layer\<close> defines no \<open>__eq__\<close>, so Python compares two layers by object
  identity. \<open>oid\<close> is that identity; \<open>name\<close> is the attribute set by \<open>__init__\<close>.
\<close>

datatype layer = Layer (oid: nat) (name: string)

text \<open>
  \<open>ImportPath\<close> is imported from \<open>dependencies.py\<close>; only its constructor is used
  here, called as \<open>ImportPath(importer, imported)\<close> with two module names.
\<close>

datatype import_path = ImportPath string string

text \<open>
  The \<open>DependencyGraph\<close> object handed to \<open>check_dependencies\<close>. The checker calls two
  methods on it and never changes it, so it is a pair of functions. \<open>find_path\<close> takes the
  keyword arguments \<open>upstream\<close>, \<open>downstream\<close>, \<open>ignore_paths\<close> in this order and
  returns \<open>None\<close> or a list of module names.
\<close>

record graph =
  get_descendants :: "string \<Rightarrow> string list"
  find_path :: "string \<Rightarrow> string \<Rightarrow> import_path list \<Rightarrow> string list option"

text \<open>
  \<open>class Contract\<close>. The attribute \<open>illegal_dependencies\<close> does not exist until
  \<open>check_dependencies\<close> assigns it: \<open>None\<close> stands for the missing attribute.
\<close>

record contract =
  cname :: string
  packages :: "string list"
  layers :: "layer list"
  whitelisted_paths :: "import_path list"
  recursive :: bool
  illegal_dependencies :: "string list list option"

text \<open>\<open>Contract.__init__\<close>; a missing or empty whitelist becomes the empty list.\<close>

definition Contract_init ::
  "string \<Rightarrow> string list \<Rightarrow> layer list \<Rightarrow> import_path list option \<Rightarrow> bool \<Rightarrow> contract" where
  "Contract_init nm pkgs lyrs wl rec =
     \<lparr> cname = nm, packages = pkgs, layers = lyrs,
       whitelisted_paths = (case wl of None \<Rightarrow> [] | Some w \<Rightarrow> if w \<noteq> [] then w else []),
       recursive = rec, illegal_dependencies = None \<rparr>"

section \<open>Helpers standing for Python built-ins\<close>

text \<open>\<open>"{}.{}".format(package, layer.name)\<close>\<close>

definition layer_module :: "string \<Rightarrow> layer \<Rightarrow> string" where
  "layer_module package l = package @ ''.'' @ name l"

text \<open>\<open>xs.index(x)\<close>: the first position holding \<open>x\<close>, \<open>ValueError\<close> when there is none.\<close>

fun list_index :: "'a list \<Rightarrow> 'a \<Rightarrow> error + nat" where
  "list_index [] x = Inl ValueError"
| "list_index (y # ys) x =
     (if y = x then Inr 0
      else (case list_index ys x of Inl e \<Rightarrow> Inl e | Inr i \<Rightarrow> Inr (Suc i)))"

text \<open>\<open>xs.remove(x)\<close>: drops the first occurrence, \<open>ValueError\<close> when there is none.\<close>

definition list_remove :: "'a list \<Rightarrow> 'a \<Rightarrow> error + 'a list" where
  "list_remove xs x = (if x \<in> set xs then Inr (remove1 x xs) else Inl ValueError)"

text \<open>
  A \<open>for\<close> loop whose body may raise: the state is threaded through the elements in
  order and the first exception ends the loop.
\<close>

fun for_each :: "('a \<Rightarrow> 's \<Rightarrow> error + 's) \<Rightarrow> 'a list \<Rightarrow> 's \<Rightarrow> error + 's" where
  "for_each body [] s = Inr s"
| "for_each body (x # xs) s =
     (case body x s of Inl e \<Rightarrow> Inl e | Inr s' \<Rightarrow> for_each body xs s')"

section \<open>The illegal-path aggregator\<close>

text \<open>
  The loop of \<open>_update_illegal_dependencies\<close> over the copy of the recorded paths. Its
  state is the pair \<open>(paths_to_remove, add_path)\<close>.
\<close>

fun compare_existing ::
  "string list \<Rightarrow> string list list \<Rightarrow> string list list \<times> bool \<Rightarrow> string list list \<times> bool" where
  "compare_existing path [] st = st"
| "compare_existing path (existing_path # rest) (paths_to_remove, add_path) =
     (if set path \<subseteq> set existing_path
      then compare_existing path rest (paths_to_remove @ [existing_path], True)
      else if set existing_path \<subseteq> set path
      then compare_existing path rest (paths_to_remove, False)
      else compare_existing path rest (paths_to_remove, add_path))"

text \<open>The effect of \<open>_update_illegal_dependencies\<close> on the list of recorded paths.\<close>

definition update_paths :: "string list list \<Rightarrow> string list \<Rightarrow> string list list" where
  "update_paths deps path =
     (case compare_existing path deps ([], True) of
        (paths_to_remove, add_path) \<Rightarrow>
          (let kept = filter (\<lambda>i. i \<notin> set paths_to_remove) deps
           in if add_path then kept @ [path] else kept))"

text \<open>\<open>Contract._update_illegal_dependencies\<close>\<close>

definition update_illegal_dependencies :: "contract \<Rightarrow> string list \<Rightarrow> error + contract" where
  "update_illegal_dependencies c path =
     (case illegal_dependencies c of
        None \<Rightarrow> Inl AttributeError
      | Some deps \<Rightarrow> Inr (c\<lparr>illegal_dependencies := Some (update_paths deps path)\<rparr>))"

section \<open>The violation detector\<close>

text \<open>\<open>Contract._get_modules_in_layer\<close>\<close>

definition get_modules_in_layer :: "layer \<Rightarrow> string \<Rightarrow> graph \<Rightarrow> string list" where
  "get_modules_in_layer l package dependencies =
     (let layer_mod = layer_module package l
      in [layer_mod] @ get_descendants dependencies layer_mod)"

text \<open>\<open>Contract._get_layers_downstream_of\<close>: \<open>reversed(self.layers[:self.layers.index(layer)])\<close>\<close>

definition get_layers_downstream_of :: "contract \<Rightarrow> layer \<Rightarrow> error + layer list" where
  "get_layers_downstream_of c l =
     (case list_index (layers c) l of
        Inl e \<Rightarrow> Inl e
      | Inr i \<Rightarrow> Inr (rev (take i (layers c))))"

text \<open>
  \<open>Contract._get_modules_in_downstream_layers\<close>: the loop extends \<open>modules\<close> by the
  one-element list holding the downstream layer's own module.
\<close>

definition get_modules_in_downstream_layers ::
  "contract \<Rightarrow> layer \<Rightarrow> string \<Rightarrow> graph \<Rightarrow> error + string list" where
  "get_modules_in_downstream_layers c l package dependencies =
     (case get_layers_downstream_of c l of
        Inl e \<Rightarrow> Inl e
      | Inr downstream \<Rightarrow>
          Inr (foldl (\<lambda>modules downstream_layer.
                        modules @ [layer_module package downstream_layer]) [] downstream))"

text \<open>
  \<open>Contract._path_is_via_another_layer\<close>. \<open>path[1:-1]\<close> drops the first and the last
  element (and is empty for a path of fewer than three elements).
\<close>

definition path_is_via_another_layer ::
  "contract \<Rightarrow> string list \<Rightarrow> layer \<Rightarrow> string \<Rightarrow> error + bool" where
  "path_is_via_another_layer c path current_layer package =
     (case list_remove (layers c) current_layer of
        Inl e \<Rightarrow> Inl e
      | Inr other_layers \<Rightarrow>
          (let layer_modules = map (layer_module package) other_layers;
               modules_via = butlast (tl path)
           in Inr (list_ex (\<lambda>path_module. path_module \<in> set layer_modules) modules_via)))"

text \<open>
  The body of the inner loop of \<open>_check_layer_does_not_import_downstream\<close>. A result of
  \<open>None\<close> or an empty list is falsy in \<open>if path and \<dots>\<close>, and \<open>and\<close> does not evaluate
  its second operand then.
\<close>

definition check_pair ::
  "layer \<Rightarrow> string \<Rightarrow> graph \<Rightarrow> string \<Rightarrow> string \<Rightarrow> contract \<Rightarrow> error + contract" where
  "check_pair l package dependencies upstream_module downstream_module c =
     (case find_path dependencies downstream_module upstream_module (whitelisted_paths c) of
        None \<Rightarrow> Inr c
      | Some path \<Rightarrow>
          if path = [] then Inr c
          else (case path_is_via_another_layer c path l package of
                  Inl e \<Rightarrow> Inl e
                | Inr via \<Rightarrow>
                    if \<not> via then update_illegal_dependencies c path else Inr c))"

text \<open>\<open>Contract._check_layer_does_not_import_downstream\<close>\<close>

definition check_layer_does_not_import_downstream ::
  "layer \<Rightarrow> string \<Rightarrow> graph \<Rightarrow> contract \<Rightarrow> error + contract" where
  "check_layer_does_not_import_downstream l package dependencies c =
     (let modules_in_this_layer = get_modules_in_layer l package dependencies
      in case get_modules_in_downstream_layers c l package dependencies of
           Inl e \<Rightarrow> Inl e
         | Inr modules_in_downstream_layers \<Rightarrow>
             for_each (\<lambda>upstream_module.
                 for_each (\<lambda>downstream_module.
                     check_pair l package dependencies upstream_module downstream_module)
                   modules_in_downstream_layers)
               modules_in_this_layer c)"

text \<open>\<open>Contract.check_dependencies\<close>\<close>

definition check_dependencies :: "contract \<Rightarrow> graph \<Rightarrow> error + contract" where
  "check_dependencies c dependencies =
     (let c0 = c\<lparr>illegal_dependencies := Some []\<rparr>
      in for_each (\<lambda>package.
             for_each (\<lambda>l. check_layer_does_not_import_downstream l package dependencies)
               (rev (layers c0)))
           (packages c0) c0)"

text \<open>
  The property \<open>Contract.is_kept\<close>: the \<open>AttributeError\<close> of the missing attribute is
  caught and a \<open>RuntimeError\<close> raised in its place.
\<close>

definition is_kept :: "contract \<Rightarrow> error + bool" where
  "is_kept c =
     (case illegal_dependencies c of
        None \<Rightarrow> Inl RuntimeError
      | Some deps \<Rightarrow> Inr (length deps = 0))"

section \<open>Loading a contract from its configuration\<close>

text \<open>
  \<open>s.split(sep)\<close> for a non-empty separator: the string is cut at each occurrence of
  \<open>sep\<close>, found from the left and not overlapping. \<open>acc\<close> holds the characters of the
  piece being read.
\<close>

function split_from :: "string \<Rightarrow> string \<Rightarrow> string \<Rightarrow> string list" where
  "split_from sep acc [] = [acc]"
| "split_from sep acc (ch # rest) =
     (if sep \<noteq> [] \<and> prefix sep (ch # rest)
      then acc # split_from sep [] (drop (length sep) (ch # rest))
      else split_from sep (acc @ [ch]) rest)"
  by pat_completeness auto
termination
  by (relation "measure (\<lambda>(sep, acc, s). length s)") auto

definition str_split :: "string \<Rightarrow> string \<Rightarrow> string list" where
  "str_split s sep = split_from sep [] s"

text \<open>
  The dictionary \<open>data\<close> of one contract in \<open>layers.yml\<close>, with the three keys the
  loader reads; \<open>None\<close> is a missing key.
\<close>

record contract_data =
  data_packages :: "string list option"
  data_layers :: "string list option"
  data_whitelisted_paths :: "string list option"

text \<open>
  The second loop of \<open>contract_from_yaml\<close>. Unpacking the result of \<open>split\<close> into
  \<open>importer, imported\<close> raises \<open>ValueError\<close> unless it has exactly two elements; the
  handler raises \<open>ValueError\<close> again.
\<close>

fun parse_whitelist :: "string list \<Rightarrow> import_path list \<Rightarrow> error + import_path list" where
  "parse_whitelist [] whitelisted = Inr whitelisted"
| "parse_whitelist (whitelist_data # rest) whitelisted =
     (case str_split whitelist_data '' <- '' of
        [importer, imported] \<Rightarrow>
          parse_whitelist rest (whitelisted @ [ImportPath importer imported])
      | _ \<Rightarrow> Inl ValueError)"

text \<open>
  \<open>contract_from_yaml\<close>. Each \<open>Layer(layer_data)\<close> is a new object; its identity is
  its position in the list.
\<close>

definition contract_from_yaml :: "string \<Rightarrow> contract_data \<Rightarrow> error + contract" where
  "contract_from_yaml key data =
     (case data_layers data of
        None \<Rightarrow> Inl KeyError
      | Some layer_names \<Rightarrow>
          (let lyrs = map (\<lambda>(i, layer_data). Layer i layer_data) (enumerate 0 layer_names)
           in case parse_whitelist
                     (case data_whitelisted_paths data of None \<Rightarrow> [] | Some ws \<Rightarrow> ws) [] of
                Inl e \<Rightarrow> Inl e
              | Inr whitelisted \<Rightarrow>
                  (case data_packages data of
                     None \<Rightarrow> Inl KeyError
                   | Some pkgs \<Rightarrow> Inr (Contract_init key pkgs lyrs (Some whitelisted) False))))"

section \<open>Notions used to state the properties\<close>

text \<open>The contract \<open>c\<close> with \<open>illegal_dependencies\<close> holding \<open>deps\<close>.\<close>

definition with_deps :: "contract \<Rightarrow> string list list \<Rightarrow> contract" where
  "with_deps c deps = c\<lparr>illegal_dependencies := Some deps\<rparr>"

text \<open>The modules of the layers below \<open>l\<close>, nearest layer first.\<close>

definition downstream_modules :: "contract \<Rightarrow> layer \<Rightarrow> string \<Rightarrow> string list" where
  "downstream_modules c l package =
     map (layer_module package) (rev (takeWhile (\<lambda>x. x \<noteq> l) (layers c)))"

text \<open>Some interior node of \<open>path\<close> is the module of a layer left after removing \<open>l\<close>.\<close>

definition via_other_layer :: "contract \<Rightarrow> string list \<Rightarrow> layer \<Rightarrow> string \<Rightarrow> bool" where
  "via_other_layer c path l package =
     (\<exists>m \<in> set (butlast (tl path)). m \<in> layer_module package ` set (remove1 l (layers c)))"

text \<open>
  The paths handed to the aggregator, in the order of the loops: for one pair of modules,
  for one layer, and for the whole run.
\<close>

definition pair_paths ::
  "contract \<Rightarrow> graph \<Rightarrow> string \<Rightarrow> layer \<Rightarrow> string \<Rightarrow> string \<Rightarrow> string list list" where
  "pair_paths c g package l u d =
     (case find_path g d u (whitelisted_paths c) of
        None \<Rightarrow> []
      | Some p \<Rightarrow> if p \<noteq> [] \<and> \<not> via_other_layer c p l package then [p] else [])"

definition layer_paths :: "contract \<Rightarrow> graph \<Rightarrow> string \<Rightarrow> layer \<Rightarrow> string list list" where
  "layer_paths c g package l =
     concat (map (\<lambda>u. concat (map (\<lambda>d. pair_paths c g package l u d)
                                  (downstream_modules c l package)))
                 (get_modules_in_layer l package g))"

definition submitted_paths :: "contract \<Rightarrow> graph \<Rightarrow> string list list" where
  "submitted_paths c g =
     concat (map (\<lambda>package. concat (map (layer_paths c g package) (rev (layers c))))
                 (packages c))"

text \<open>No recorded path has a node set strictly inside another recorded path's node set.\<close>

definition no_strict_subset :: "string list list \<Rightarrow> bool" where
  "no_strict_subset deps = (\<forall>a \<in> set deps. \<forall>b \<in> set deps. \<not> set a \<subset> set b)"

text \<open>Some recorded path has all its nodes in \<open>S\<close>.\<close>

definition dominated :: "string set \<Rightarrow> string list list \<Rightarrow> bool" where
  "dominated S deps = (\<exists>q \<in> set deps. set q \<subseteq> S)"

text \<open>The list after recording the paths \<open>ps\<close> one by one, starting from the empty list.\<close>

definition record_all :: "string list list \<Rightarrow> string list list" where
  "record_all ps = foldl update_paths [] ps"

section \<open>Example contracts and graphs\<close>

text \<open>
  The layers \<open>low\<close>, \<open>mid\<close>, \<open>high\<close> (lowest first) of the package \<open>app\<close>, as three
  distinct \<open>Layer\<close> objects, and the contract over them with no whitelist.
\<close>

definition example_layers :: "layer list" where
  "example_layers = [Layer 0 ''low'', Layer 1 ''mid'', Layer 2 ''high'']"

definition example_contract :: contract where
  "example_contract = Contract_init ''layering'' [''app''] example_layers None False"

text \<open>
  A graph with the modules \<open>app.low\<close>, \<open>app.mid\<close>, \<open>app.high\<close> and the single import
  edge from \<open>app.low\<close> to \<open>app.high\<close>.
\<close>

definition direct_graph :: graph where
  "direct_graph =
     \<lparr> get_descendants = (\<lambda>module. []),
       find_path = (\<lambda>upstream downstream ignore_paths.
         if upstream = ''app.low'' \<and> downstream = ''app.high''
            \<and> ImportPath ''app.low'' ''app.high'' \<notin> set ignore_paths
         then Some [''app.low'', ''app.high''] else None) \<rparr>"

text \<open>
  A graph with the modules \<open>app.low\<close>, \<open>app.mid\<close>, \<open>app.high\<close> and the import edges from
  \<open>app.low\<close> to \<open>app.mid\<close> and from \<open>app.mid\<close> to \<open>app.high\<close>; the only path from
  \<open>app.low\<close> to \<open>app.high\<close> uses both.
\<close>

definition chain_graph :: graph where
  "chain_graph =
     \<lparr> get_descendants = (\<lambda>module. []),
       find_path = (\<lambda>upstream downstream ignore_paths.
         if upstream = ''app.low'' \<and> downstream = ''app.mid''
            \<and> ImportPath ''app.low'' ''app.mid'' \<notin> set ignore_paths
         then Some [''app.low'', ''app.mid'']
         else if upstream = ''app.mid'' \<and> downstream = ''app.high''
            \<and> ImportPath ''app.mid'' ''app.high'' \<notin> set ignore_paths
         then Some [''app.mid'', ''app.high'']
         else if upstream = ''app.low'' \<and> downstream = ''app.high''
            \<and> ImportPath ''app.low'' ''app.mid'' \<notin> set ignore_paths
            \<and> ImportPath ''app.mid'' ''app.high'' \<notin> set ignore_paths
         then Some [''app.low'', ''app.mid'', ''app.high'']
         else None) \<rparr>"

text \<open>
  A graph with the modules \<open>app.low\<close>, \<open>app.low.x\<close>, \<open>app.mid\<close>, \<open>app.high\<close>, where
  \<open>app.low.x\<close> is the only descendant, and the single import edge from \<open>app.low.x\<close> to
  \<open>app.high\<close>.
\<close>

definition submodule_graph :: graph where
  "submodule_graph =
     \<lparr> get_descendants = (\<lambda>module. if module = ''app.low'' then [''app.low.x''] else []),
       find_path = (\<lambda>upstream downstream ignore_paths.
         if upstream = ''app.low.x'' \<and> downstream = ''app.high''
            \<and> ImportPath ''app.low.x'' ''app.high'' \<notin> set ignore_paths
         then Some [''app.low.x'', ''app.high''] else None) \<rparr>"

text \<open>
  A graph where \<open>app.high\<close> has the descendants \<open>app.high.x\<close> and \<open>app.high.x.y\<close> and
  no module imports another.
\<close>

definition nested_graph :: graph where
  "nested_graph =
     \<lparr> get_descendants = (\<lambda>module.
         if module = ''app.high'' then [''app.high.x'', ''app.high.x.y'']
         else if module = ''app.high.x'' then [''app.high.x.y''] else []),
       find_path = (\<lambda>upstream downstream ignore_paths. None) \<rparr>"

section \<open>The run as a sequence of recorded paths\<close>


lemma list_index_mem:
  "x \<in> set xs \<Longrightarrow> list_index xs x = Inr (length (takeWhile (\<lambda>y. y \<noteq> x) xs))"
  by (induction xs) auto

lemma list_index_not_mem: "x \<notin> set xs \<Longrightarrow> list_index xs x = Inl ValueError"
  by (induction xs) auto

lemma take_length_takeWhile: "take (length (takeWhile P xs)) xs = takeWhile P xs"
  by (induction xs) auto

lemma foldl_snoc_map: "foldl (\<lambda>acc x. acc @ [f x]) acc0 xs = acc0 @ map f xs"
  by (induction xs arbitrary: acc0) auto

lemma get_modules_in_downstream_layers_mem:
  "l \<in> set (layers c) \<Longrightarrow>
   get_modules_in_downstream_layers c l package g = Inr (downstream_modules c l package)"
  by (simp add: get_modules_in_downstream_layers_def get_layers_downstream_of_def
      list_index_mem take_length_takeWhile foldl_snoc_map downstream_modules_def)

lemma path_is_via_another_layer_mem:
  "l \<in> set (layers c) \<Longrightarrow>
   path_is_via_another_layer c path l package = Inr (via_other_layer c path l package)"
  by (simp add: path_is_via_another_layer_def list_remove_def via_other_layer_def list_ex_iff)

lemma with_deps_simps [simp]:
  "layers (with_deps c deps) = layers c"
  "packages (with_deps c deps) = packages c"
  "whitelisted_paths (with_deps c deps) = whitelisted_paths c"
  "illegal_dependencies (with_deps c deps) = Some deps"
  "with_deps (with_deps c deps) deps' = with_deps c deps'"
  "(with_deps c deps)\<lparr>illegal_dependencies := Some deps'\<rparr> = with_deps c deps'"
  by (simp_all add: with_deps_def)

lemma for_each_records:
  assumes "\<And>x deps. x \<in> set xs \<Longrightarrow>
             body x (with_deps c deps) = Inr (with_deps c (foldl update_paths deps (f x)))"
  shows "for_each body xs (with_deps c deps)
         = Inr (with_deps c (foldl update_paths deps (concat (map f xs))))"
  using assms by (induction xs arbitrary: deps) simp_all

lemma via_other_layer_with_deps [simp]:
  "via_other_layer (with_deps c deps) p l package = via_other_layer c p l package"
  by (simp add: via_other_layer_def)

lemma check_pair_records:
  assumes "l \<in> set (layers c)"
  shows "check_pair l package g u d (with_deps c deps)
         = Inr (with_deps c (foldl update_paths deps (pair_paths c g package l u d)))"
proof -
  have l: "l \<in> set (layers (with_deps c deps))" using assms by simp
  show ?thesis
    by (simp add: check_pair_def pair_paths_def path_is_via_another_layer_mem [OF l]
      update_illegal_dependencies_def split: option.splits)
qed

lemma downstream_modules_with_deps [simp]:
  "downstream_modules (with_deps c deps) l package = downstream_modules c l package"
  by (simp add: downstream_modules_def)

lemma check_layer_records:
  assumes "l \<in> set (layers c)"
  shows "check_layer_does_not_import_downstream l package g (with_deps c deps)
         = Inr (with_deps c (foldl update_paths deps (layer_paths c g package l)))"
  using assms
  by (simp add: check_layer_does_not_import_downstream_def
      get_modules_in_downstream_layers_mem layer_paths_def for_each_records check_pair_records)

lemma check_dependencies_records:
  "check_dependencies c g = Inr (with_deps c (foldl update_paths [] (submitted_paths c g)))"
proof -
  have c0: "c\<lparr>illegal_dependencies := Some []\<rparr> = with_deps c []"
    by (simp add: with_deps_def)
  have inner: "for_each (\<lambda>l. check_layer_does_not_import_downstream l package g)
                 (rev (layers c)) (with_deps c deps)
               = Inr (with_deps c (foldl update_paths deps
                   (concat (map (layer_paths c g package) (rev (layers c))))))"
    for package deps
    by (rule for_each_records) (simp add: check_layer_records)
  have "for_each (\<lambda>package. for_each (\<lambda>l. check_layer_does_not_import_downstream l package g)
                 (rev (layers c))) (packages c) (with_deps c [])
        = Inr (with_deps c (foldl update_paths [] (submitted_paths c g)))"
    unfolding submitted_paths_def by (rule for_each_records) (rule inner)
  then show ?thesis
    by (simp add: check_dependencies_def Let_def c0)
qed

section \<open>Properties of the aggregator\<close>


lemma compare_existing_fst:
  "fst (compare_existing p es (rm, add)) = rm @ filter (\<lambda>e. set p \<subseteq> set e) es"
  by (induction es arbitrary: rm add) auto

lemma compare_existing_snd_no_strict:
  "\<forall>e \<in> set es. set e \<subseteq> set p \<longrightarrow> set p \<subseteq> set e \<Longrightarrow>
   snd (compare_existing p es (rm, add)) = (add \<or> (\<exists>e \<in> set es. set p \<subseteq> set e))"
  by (induction es arbitrary: rm add) auto

lemma compare_existing_snd_no_super:
  "\<forall>e \<in> set es. \<not> set p \<subseteq> set e \<Longrightarrow>
   snd (compare_existing p es (rm, add)) = (add \<and> (\<forall>e \<in> set es. \<not> set e \<subseteq> set p))"
  by (induction es arbitrary: rm add) auto

lemma update_paths_shape:
  "update_paths deps p =
     filter (\<lambda>e. \<not> set p \<subseteq> set e) deps
       @ (if snd (compare_existing p deps ([], True)) then [p] else [])"
proof -
  obtain rm add where ce: "compare_existing p deps ([], True) = (rm, add)"
    by (cases "compare_existing p deps ([], True)")
  have rm: "rm = filter (\<lambda>e. set p \<subseteq> set e) deps"
    using compare_existing_fst [of p deps "[]" True] ce by simp
  have "filter (\<lambda>i. i \<notin> set rm) deps = filter (\<lambda>e. \<not> set p \<subseteq> set e) deps"
    unfolding rm by (rule filter_cong) auto
  then show ?thesis
    by (simp add: update_paths_def ce)
qed

lemma update_paths_no_strict:
  assumes "\<forall>e \<in> set deps. set e \<subseteq> set p \<longrightarrow> set p \<subseteq> set e"
  shows "update_paths deps p = filter (\<lambda>e. \<not> set p \<subseteq> set e) deps @ [p]"
  using compare_existing_snd_no_strict [OF assms, of "[]" True]
  by (simp add: update_paths_shape)

lemma update_paths_no_super:
  assumes "\<forall>e \<in> set deps. \<not> set p \<subseteq> set e"
  shows "update_paths deps p = (if \<exists>e \<in> set deps. set e \<subseteq> set p then deps else deps @ [p])"
proof -
  have "filter (\<lambda>e. \<not> set p \<subseteq> set e) deps = deps"
    using assms by (simp add: filter_id_conv)
  then show ?thesis
    using compare_existing_snd_no_super [OF assms, of "[]" True]
    by (simp add: update_paths_shape)
qed

lemma update_paths_closed:
  assumes "no_strict_subset deps"
  shows "update_paths deps p =
           (if \<exists>e \<in> set deps. set e \<subset> set p then deps
            else filter (\<lambda>e. \<not> set p \<subseteq> set e) deps @ [p])"
proof (cases "\<exists>e \<in> set deps. set e \<subset> set p")
  case True
  then obtain e where e: "e \<in> set deps" "set e \<subset> set p" by blast
  have "\<forall>a \<in> set deps. \<not> set p \<subseteq> set a"
  proof
    fix a assume a: "a \<in> set deps"
    show "\<not> set p \<subseteq> set a"
    proof
      assume "set p \<subseteq> set a"
      with e have "set e \<subset> set a" by blast
      with assms e(1) a show False by (simp add: no_strict_subset_def)
    qed
  qed
  then have "update_paths deps p = (if \<exists>e \<in> set deps. set e \<subseteq> set p then deps else deps @ [p])"
    by (rule update_paths_no_super)
  with e True show ?thesis by auto
next
  case False
  then have "\<forall>e \<in> set deps. set e \<subseteq> set p \<longrightarrow> set p \<subseteq> set e" by blast
  then have "update_paths deps p = filter (\<lambda>e. \<not> set p \<subseteq> set e) deps @ [p]"
    by (rule update_paths_no_strict)
  with False show ?thesis by simp
qed

lemma no_strict_subset_update:
  assumes "no_strict_subset deps"
  shows "no_strict_subset (update_paths deps p)"
proof (cases "\<exists>e \<in> set deps. set e \<subset> set p")
  case True
  with assms show ?thesis by (simp add: update_paths_closed)
next
  case False
  have "update_paths deps p = filter (\<lambda>e. \<not> set p \<subseteq> set e) deps @ [p]"
    using False assms by (simp add: update_paths_closed)
  moreover have "no_strict_subset (filter (\<lambda>e. \<not> set p \<subseteq> set e) deps @ [p])"
    using assms False unfolding no_strict_subset_def by auto
  ultimately show ?thesis by simp
qed

lemma no_strict_subset_Nil: "no_strict_subset []"
  by (simp add: no_strict_subset_def)

lemma no_strict_subset_foldl:
  "no_strict_subset deps \<Longrightarrow> no_strict_subset (foldl update_paths deps ps)"
  by (induction ps arbitrary: deps) (simp_all add: no_strict_subset_update)

lemma set_update_paths: "set (update_paths deps p) \<subseteq> insert p (set deps)"
  by (auto simp: update_paths_shape)

lemma set_foldl_update_paths: "set (foldl update_paths deps ps) \<subseteq> set deps \<union> set ps"
proof (induction ps arbitrary: deps)
  case Nil
  show ?case by simp
next
  case (Cons p ps)
  show ?case using Cons [of "update_paths deps p"] set_update_paths [of deps p] by auto
qed

lemma dominated_update_new:
  "no_strict_subset deps \<Longrightarrow> dominated (set p) (update_paths deps p)"
  by (auto simp: update_paths_closed dominated_def)

lemma dominated_update_keep:
  assumes "no_strict_subset deps" "dominated S deps"
  shows "dominated S (update_paths deps p)"
proof -
  from assms(2) obtain q where q: "q \<in> set deps" "set q \<subseteq> S"
    by (auto simp: dominated_def)
  show ?thesis
  proof (cases "\<exists>e \<in> set deps. set e \<subset> set p")
    case True
    with assms show ?thesis by (simp add: update_paths_closed)
  next
    case False
    then have u: "update_paths deps p = filter (\<lambda>e. \<not> set p \<subseteq> set e) deps @ [p]"
      using assms(1) by (simp add: update_paths_closed)
    show ?thesis
    proof (cases "set p \<subseteq> set q")
      case True
      with q(2) have "set p \<subseteq> S" by blast
      then show ?thesis by (simp add: u dominated_def)
    next
      case False
      with q show ?thesis by (auto simp: u dominated_def)
    qed
  qed
qed

lemma dominated_foldl_keep:
  "no_strict_subset deps \<Longrightarrow> dominated S deps \<Longrightarrow> dominated S (foldl update_paths deps ps)"
  by (induction ps arbitrary: deps) (simp_all add: no_strict_subset_update dominated_update_keep)

lemma dominated_foldl_new:
  "no_strict_subset deps \<Longrightarrow> p \<in> set ps \<Longrightarrow> dominated (set p) (foldl update_paths deps ps)"
proof (induction ps arbitrary: deps)
  case Nil
  then show ?case by simp
next
  case (Cons a ps)
  show ?case
  proof (cases "p = a")
    case True
    then show ?thesis
      using Cons.prems(1)
      by (simp add: dominated_foldl_keep no_strict_subset_update dominated_update_new)
  next
    case False
    with Cons show ?thesis by (simp add: no_strict_subset_update)
  qed
qed

section \<open>Properties of a run\<close>


lemma is_kept_with_deps: "is_kept (with_deps c deps) = Inr (deps = [])"
  by (simp add: is_kept_def)

lemma with_deps_twice: "with_deps (with_deps c deps) [] = with_deps c []"
  by simp

lemma submitted_paths_cong:
  assumes "layers c = layers c'" "packages c = packages c'"
    "whitelisted_paths c = whitelisted_paths c'"
  shows "submitted_paths c g = submitted_paths c' g"
proof -
  have "via_other_layer c = via_other_layer c'"
    using assms by (intro ext) (simp add: via_other_layer_def)
  then have "pair_paths c g = pair_paths c' g"
    using assms by (intro ext) (simp add: pair_paths_def split: option.splits)
  moreover have "downstream_modules c = downstream_modules c'"
    using assms by (intro ext) (simp add: downstream_modules_def)
  ultimately have "layer_paths c g package l = layer_paths c' g package l" for package l
    by (simp add: layer_paths_def)
  then have "layer_paths c g = layer_paths c' g"
    by (intro ext)
  with assms show ?thesis
    by (simp add: submitted_paths_def)
qed

text \<open>
  Claim C7. On a contract as \<open>__init__\<close> leaves it, \<open>is_kept\<close> raises \<open>RuntimeError\<close>
  and returns no value. \<open>check_dependencies\<close> always returns, and on the contract it
  returns \<open>is_kept\<close> is true exactly when \<open>illegal_dependencies\<close> is the empty list.
\<close>

theorem is_kept_before_and_after_check:
  "is_kept (Contract_init nm pkgs lyrs wl rec) = Inl RuntimeError
   \<and> (\<exists>c' deps. check_dependencies c g = Inr c' \<and> illegal_dependencies c' = Some deps
         \<and> is_kept c' = Inr (deps = []))"
  by (simp add: is_kept_def Contract_init_def check_dependencies_records)

text \<open>
  Claim C6. \<open>check_dependencies\<close> returns a contract whose \<open>illegal_dependencies\<close> is
  the list obtained by recording, from the empty list, the paths this run hands to the
  aggregator. The result does not depend on what \<open>illegal_dependencies\<close> held before
  the run: whether the attribute is missing or holds any list, the same contract is
  returned, so nothing of an earlier list is kept. In particular running it again on
  the contract it returned, with the same graph, returns that same contract.
\<close>

theorem check_dependencies_rerun:
  "\<exists>c'. check_dependencies c g = Inr c'
      \<and> illegal_dependencies c' = Some (record_all (submitted_paths c g))
      \<and> check_dependencies (c\<lparr>illegal_dependencies := prior\<rparr>) g = Inr c'
      \<and> check_dependencies c' g = Inr c'"
proof -
  let ?deps = "foldl update_paths [] (submitted_paths c g)"
  let ?c' = "with_deps c ?deps"
  have first: "check_dependencies c g = Inr ?c'"
    by (rule check_dependencies_records)
  have recorded: "illegal_dependencies ?c' = Some (record_all (submitted_paths c g))"
    by (simp add: record_all_def)
  have "submitted_paths (c\<lparr>illegal_dependencies := prior\<rparr>) g = submitted_paths c g"
    by (rule submitted_paths_cong) simp_all
  moreover have "with_deps (c\<lparr>illegal_dependencies := prior\<rparr>) ?deps = ?c'"
    by (simp add: with_deps_def)
  ultimately have overwrite: "check_dependencies (c\<lparr>illegal_dependencies := prior\<rparr>) g = Inr ?c'"
    using check_dependencies_records [of "c\<lparr>illegal_dependencies := prior\<rparr>" g] by simp
  have "submitted_paths ?c' g = submitted_paths c g"
    by (rule submitted_paths_cong) simp_all
  then have again: "check_dependencies ?c' g = Inr ?c'"
    by (simp add: check_dependencies_records)
  from first recorded overwrite again show ?thesis
    by blast
qed

theorem check_dependencies_rerun_witness:
  "check_dependencies example_contract direct_graph
     = Inr (with_deps example_contract [[''app.low'', ''app.high'']])
   \<and> check_dependencies (example_contract\<lparr>illegal_dependencies := Some [[''stale'']]\<rparr>)
       direct_graph
     = Inr (with_deps example_contract [[''app.low'', ''app.high'']])
   \<and> check_dependencies (with_deps example_contract [[''app.low'', ''app.high'']]) direct_graph
     = Inr (with_deps example_contract [[''app.low'', ''app.high'']])"
proof -
  have run: "check_dependencies example_contract direct_graph
     = Inr (with_deps example_contract [[''app.low'', ''app.high'']])"
    by (simp add: example_contract_def Contract_init_def example_layers_def layer_module_def
        check_dependencies_def check_layer_does_not_import_downstream_def check_pair_def
        get_modules_in_layer_def get_modules_in_downstream_layers_def
        get_layers_downstream_of_def path_is_via_another_layer_def list_remove_def
        update_illegal_dependencies_def update_paths_def with_deps_def direct_graph_def)
  from check_dependencies_rerun [of example_contract direct_graph "Some [[''stale'']]"]
  obtain c' where c': "check_dependencies example_contract direct_graph = Inr c'"
      "check_dependencies (example_contract\<lparr>illegal_dependencies := Some [[''stale'']]\<rparr>)
         direct_graph = Inr c'"
      "check_dependencies c' direct_graph = Inr c'"
    by blast
  from c'(1) run have "c' = with_deps example_contract [[''app.low'', ''app.high'']]"
    by simp
  with c' run show ?thesis by simp
qed

text \<open>
  Claim C9. Two contracts built from the same arguments except for \<open>recursive\<close> are
  both checked without error against the same graph, and end with the same
  \<open>illegal_dependencies\<close> and the same \<open>is_kept\<close>.
\<close>

theorem recursive_flag_ignored:
  "\<exists>c1 c2. check_dependencies (Contract_init nm pkgs lyrs wl r1) g = Inr c1
      \<and> check_dependencies (Contract_init nm pkgs lyrs wl r2) g = Inr c2
      \<and> illegal_dependencies c1 = illegal_dependencies c2
      \<and> is_kept c1 = is_kept c2"
proof -
  have "submitted_paths (Contract_init nm pkgs lyrs wl r1) g
        = submitted_paths (Contract_init nm pkgs lyrs wl r2) g"
    by (rule submitted_paths_cong) (simp_all add: Contract_init_def)
  then show ?thesis
    by (simp add: check_dependencies_records is_kept_with_deps)
qed

text \<open>
  Claim C4. Starting from the empty list, after any sequence of record operations no
  recorded path has a node set that is a strict subset of another recorded path's node
  set; \<open>check_dependencies\<close> returns for every contract and graph, and the list it
  leaves in \<open>illegal_dependencies\<close> has that property.
\<close>

theorem no_redundant_path_recorded:
  "no_strict_subset (record_all ps)
   \<and> (\<exists>c' deps. check_dependencies c g = Inr c' \<and> illegal_dependencies c' = Some deps
         \<and> no_strict_subset deps)"
  by (simp add: record_all_def check_dependencies_records no_strict_subset_foldl
      no_strict_subset_Nil)

theorem no_redundant_path_recorded_witness:
  "no_strict_subset (record_all [[''a'', ''b'', ''c''], [''b'', ''d''], [''c'', ''a'']])
   \<and> record_all [[''a'', ''b'', ''c''], [''b'', ''d''], [''c'', ''a'']]
       = [[''b'', ''d''], [''c'', ''a'']]"
  using no_redundant_path_recorded [of "[[''a'', ''b'', ''c''], [''b'', ''d''], [''c'', ''a'']]"]
  by (simp add: record_all_def update_paths_def)

section \<open>The subset-domination rule\<close>


lemma distinct_node_sets_update:
  assumes "no_strict_subset deps" "distinct (map set deps)"
  shows "distinct (map set (update_paths deps p))"
proof (cases "\<exists>e \<in> set deps. set e \<subset> set p")
  case True
  with assms show ?thesis by (simp add: update_paths_closed)
next
  case False
  have "distinct (map set (filter (\<lambda>e. \<not> set p \<subseteq> set e) deps))"
    using assms(2) by (rule distinct_map_filter)
  moreover have "set p \<notin> set ` {e \<in> set deps. \<not> set p \<subseteq> set e}"
    by auto
  ultimately show ?thesis
    using False assms(1) by (simp add: update_paths_closed)
qed

lemma reachable_invariant:
  "no_strict_subset deps \<Longrightarrow> distinct (map set deps) \<Longrightarrow>
   no_strict_subset (foldl update_paths deps ps) \<and> distinct (map set (foldl update_paths deps ps))"
  by (induction ps arbitrary: deps)
    (simp_all add: no_strict_subset_update distinct_node_sets_update)

lemma record_all_invariant:
  "no_strict_subset (record_all ps) \<and> distinct (map set (record_all ps))"
  unfolding record_all_def
  by (rule reachable_invariant) (simp_all add: no_strict_subset_Nil)

text \<open>
  Claim C10. In a list built by record operations from the empty list, when the new
  path's node set equals the node set of a recorded path, the removal branch is taken:
  that recorded path is removed and the new path is appended, whether or not the two are
  equal as sequences.
\<close>

theorem equal_node_set_replaces:
  assumes "e \<in> set (record_all ps)" "set e = set p"
  shows "update_paths (record_all ps) p = remove1 e (record_all ps) @ [p]"
proof -
  let ?deps = "record_all ps"
  have nss: "no_strict_subset ?deps" and dist: "distinct (map set ?deps)"
    using record_all_invariant [of ps] by simp_all
  have no_strict: "\<not> (\<exists>a \<in> set ?deps. set a \<subset> set p)"
    using nss assms unfolding no_strict_subset_def by metis
  have only: "set p \<subseteq> set a \<longleftrightarrow> a = e" if a: "a \<in> set ?deps" for a
  proof
    assume "set p \<subseteq> set a"
    with assms(2) have "set e \<subseteq> set a" by simp
    moreover have "\<not> set e \<subset> set a"
      using nss assms(1) a by (simp add: no_strict_subset_def)
    ultimately have "set a = set e" by blast
    with dist a assms(1) show "a = e"
      by (simp add: distinct_map inj_on_def)
  next
    assume "a = e"
    with assms(2) show "set p \<subseteq> set a" by simp
  qed
  have "filter (\<lambda>a. \<not> set p \<subseteq> set a) ?deps = filter (\<lambda>a. a \<noteq> e) ?deps"
    by (rule filter_cong) (simp_all add: only)
  also have "\<dots> = removeAll e ?deps"
    by (simp add: removeAll_filter_not_eq) metis
  also have "\<dots> = remove1 e ?deps"
    using dist by (simp add: distinct_remove1_removeAll distinct_map)
  finally have "filter (\<lambda>a. \<not> set p \<subseteq> set a) ?deps = remove1 e ?deps" .
  with no_strict nss show ?thesis
    by (simp add: update_paths_closed)
qed

theorem equal_node_set_replaces_witness:
  "[''a'', ''b''] \<in> set (record_all [[''a'', ''b''], [''c'']])
   \<and> set [''a'', ''b''] = set [''b'', ''a'']
   \<and> update_paths (record_all [[''a'', ''b''], [''c'']]) [''b'', ''a'']
       = [[''c''], [''b'', ''a'']]"
  using equal_node_set_replaces [of "[''a'', ''b'']" "[[''a'', ''b''], [''c'']]" "[''b'', ''a'']"]
  by (simp add: record_all_def update_paths_def insert_commute)

text \<open>
  Claim C3, amended. For every list of recorded paths and every new path: the recorded
  paths whose node set includes the new path's node set are removed and nothing else is,
  and the new path is appended when no recorded path's node set is a strict subset of the
  new path's node set (so also when a recorded node set equals it). In a list with no
  strict-subset pair, as every list built by record operations is, the new path is not
  added and the list is unchanged when some recorded path's node set is a strict subset
  of the new path's node set. Of two paths recorded from the empty list where one's node
  set is a strict subset of the other's, only the subset path is retained, in either
  order of arrival.
\<close>

theorem update_paths_rule:
  "(\<exists>added. update_paths deps path
       = filter (\<lambda>e. \<not> set path \<subseteq> set e) deps @ (if added then [path] else []))
   \<and> ((\<forall>e \<in> set deps. \<not> set e \<subset> set path) \<longrightarrow>
        update_paths deps path = filter (\<lambda>e. \<not> set path \<subseteq> set e) deps @ [path])
   \<and> (no_strict_subset deps \<longrightarrow> (\<exists>e \<in> set deps. set e \<subset> set path) \<longrightarrow>
        update_paths deps path = deps)
   \<and> (set a \<subset> set b \<longrightarrow> record_all [a, b] = [a] \<and> record_all [b, a] = [a])"
proof (intro conjI impI)
  show "\<exists>added. update_paths deps path
       = filter (\<lambda>e. \<not> set path \<subseteq> set e) deps @ (if added then [path] else [])"
    using update_paths_shape [of deps path] by blast
next
  assume "\<forall>e \<in> set deps. \<not> set e \<subset> set path"
  then have "\<forall>e \<in> set deps. set e \<subseteq> set path \<longrightarrow> set path \<subseteq> set e"
    by blast
  then show "update_paths deps path = filter (\<lambda>e. \<not> set path \<subseteq> set e) deps @ [path]"
    by (rule update_paths_no_strict)
next
  assume "no_strict_subset deps" "\<exists>e \<in> set deps. set e \<subset> set path"
  then show "update_paths deps path = deps"
    by (simp add: update_paths_closed)
next
  assume ab: "set a \<subset> set b"
  then have 1: "set a \<subseteq> set b" and 2: "\<not> set b \<subseteq> set a" by auto
  show "record_all [a, b] = [a]"
    using 1 2 by (simp add: record_all_def update_paths_def)
next
  assume ab: "set a \<subset> set b"
  then have 1: "set a \<subseteq> set b" and 2: "\<not> set b \<subseteq> set a" by auto
  show "record_all [b, a] = [a]"
    using 1 2 by (simp add: record_all_def update_paths_def)
qed

theorem update_paths_rule_witness:
  "(\<exists>added. update_paths [[''a'', ''b'', ''c''], [''d'']] [''a'', ''b'']
       = filter (\<lambda>e. \<not> set [''a'', ''b''] \<subseteq> set e) [[''a'', ''b'', ''c''], [''d'']]
           @ (if added then [[''a'', ''b'']] else []))
   \<and> update_paths [[''a'', ''b'', ''c''], [''d'']] [''a'', ''b''] = [[''d''], [''a'', ''b'']]
   \<and> no_strict_subset [[''a'', ''b''], [''d'']]
   \<and> update_paths [[''a'', ''b''], [''d'']] [''d'', ''e''] = [[''a'', ''b''], [''d'']]
   \<and> record_all [[''a''], [''a'', ''b'']] = [[''a'']]
   \<and> record_all [[''a'', ''b''], [''a'']] = [[''a'']]"
proof -
  have h1: "\<forall>e \<in> set [[''a'', ''b'', ''c''], [''d'']]. \<not> set e \<subset> set [''a'', ''b'']"
    by auto
  have h2: "no_strict_subset [[''a'', ''b''], [''d'']]"
    by (auto simp: no_strict_subset_def)
  have h3: "\<exists>e \<in> set [[''a'', ''b''], [''d'']]. set e \<subset> set [''d'', ''e'']"
    by auto
  have h4: "set [''a''] \<subset> set [''a'', ''b'']"
    by auto
  note r1 = update_paths_rule [of "[[''a'', ''b'', ''c''], [''d'']]" "[''a'', ''b'']" a b]
  note r2 = update_paths_rule [of "[[''a'', ''b''], [''d'']]" "[''d'', ''e'']" a b]
  note r3 = update_paths_rule [of deps path "[''a'']" "[''a'', ''b'']"]
  from r1 h1 have c1: "(\<exists>added. update_paths [[''a'', ''b'', ''c''], [''d'']] [''a'', ''b'']
       = filter (\<lambda>e. \<not> set [''a'', ''b''] \<subseteq> set e) [[''a'', ''b'', ''c''], [''d'']]
           @ (if added then [[''a'', ''b'']] else []))"
    and c2: "update_paths [[''a'', ''b'', ''c''], [''d'']] [''a'', ''b'']
       = filter (\<lambda>e. \<not> set [''a'', ''b''] \<subseteq> set e) [[''a'', ''b'', ''c''], [''d'']] @ [[''a'', ''b'']]"
    by blast+
  from r2 h2 h3 have c3: "update_paths [[''a'', ''b''], [''d'']] [''d'', ''e''] = [[''a'', ''b''], [''d'']]"
    by blast
  from r3 h4 have c4: "record_all [[''a''], [''a'', ''b'']] = [[''a'']]"
    and c5: "record_all [[''a'', ''b''], [''a'']] = [[''a'']]"
    by blast+
  from c2 have c2': "update_paths [[''a'', ''b'', ''c''], [''d'']] [''a'', ''b''] = [[''d''], [''a'', ''b'']]"
    by simp
  from c1 c2' h2 c3 c4 c5 show ?thesis by blast
qed

text \<open>
  Claim C3 as stated fails. A recorded path with the same node set as the new path is a
  subset of it, yet the new path is added. In a list holding a subset of the new path
  before a superset of it, the new path is added as well.
\<close>

theorem subset_not_added_counterexample:
  "set [''a'', ''b''] \<subseteq> set [''b'', ''a'']
   \<and> update_paths [[''a'', ''b'']] [''b'', ''a''] = [[''b'', ''a'']]
   \<and> set [''a''] \<subseteq> set [''a'', ''b'']
   \<and> update_paths [[''a''], [''a'', ''b'', ''c'']] [''a'', ''b''] = [[''a''], [''a'', ''b'']]"
  by (simp add: update_paths_def insert_commute)

section \<open>The modules queried and the via-another-layer exception\<close>


lemma takeWhile_neq_nth:
  assumes "distinct xs" "i < length xs"
  shows "takeWhile (\<lambda>x. x \<noteq> xs ! i) xs = take i xs"
proof (rule takeWhile_eq_take_P_nth)
  show "\<And>j. j < i \<Longrightarrow> j < length xs \<Longrightarrow> xs ! j \<noteq> xs ! i"
    using assms by (simp add: nth_eq_iff_index_eq)
  show "i < length xs \<Longrightarrow> \<not> xs ! i \<noteq> xs ! i" by simp
qed

text \<open>
  Claim C5. For the layer at position \<open>i\<close> of a contract whose layers are distinct, the
  modules of this layer are the layer's own module \<open>package.layer_name\<close> followed by the
  descendants the graph reports for it; the downstream modules are the own modules of the
  layers at positions below \<open>i\<close>, none of their descendants, from the layer just below
  down to the first; and the check of the layer runs a query for each pair of the two
  lists and for nothing else.
\<close>

theorem modules_queried_for_layer:
  assumes "distinct (layers c)" "i < length (layers c)"
  shows "get_modules_in_layer (layers c ! i) package g
           = layer_module package (layers c ! i)
               # get_descendants g (layer_module package (layers c ! i))
       \<and> get_modules_in_downstream_layers c (layers c ! i) package g
           = Inr (map (layer_module package) (rev (take i (layers c))))
       \<and> check_layer_does_not_import_downstream (layers c ! i) package g c
           = for_each (\<lambda>upstream_module.
                 for_each (\<lambda>downstream_module.
                     check_pair (layers c ! i) package g upstream_module downstream_module)
                   (map (layer_module package) (rev (take i (layers c)))))
               (layer_module package (layers c ! i)
                  # get_descendants g (layer_module package (layers c ! i))) c"
proof -
  have mem: "layers c ! i \<in> set (layers c)"
    using assms(2) by simp
  have down: "get_modules_in_downstream_layers c (layers c ! i) package g
           = Inr (map (layer_module package) (rev (take i (layers c))))"
    using assms
    by (simp add: get_modules_in_downstream_layers_mem [OF mem] downstream_modules_def
        takeWhile_neq_nth)
  have this_layer: "get_modules_in_layer (layers c ! i) package g
           = layer_module package (layers c ! i)
               # get_descendants g (layer_module package (layers c ! i))"
    by (simp add: get_modules_in_layer_def Let_def)
  show ?thesis
    by (simp add: check_layer_does_not_import_downstream_def down this_layer Let_def)
qed

text \<open>
  Claim C2. In a contract whose layers are distinct, for a non-empty path the graph
  returns while the layer \<open>l\<close> is checked: the path counts as going via another layer
  exactly when one of its interior nodes (both end points left out) is the module
  \<open>package.L\<close> of a declared layer \<open>L\<close> other than \<open>l\<close>. Then the contract is left as
  it is; otherwise the path is handed to \<open>_update_illegal_dependencies\<close>.
\<close>

theorem via_another_layer_exception:
  assumes "distinct (layers c)" "l \<in> set (layers c)"
    "find_path g d u (whitelisted_paths c) = Some path" "path \<noteq> []"
  shows "path_is_via_another_layer c path l package
           = Inr (\<exists>m \<in> set (butlast (tl path)).
                    \<exists>other \<in> set (layers c). other \<noteq> l \<and> m = layer_module package other)
       \<and> check_pair l package g u d c
           = (if \<exists>m \<in> set (butlast (tl path)).
                    \<exists>other \<in> set (layers c). other \<noteq> l \<and> m = layer_module package other
              then Inr c
              else update_illegal_dependencies c path)"
proof -
  have "via_other_layer c path l package
        = (\<exists>m \<in> set (butlast (tl path)).
             \<exists>other \<in> set (layers c). other \<noteq> l \<and> m = layer_module package other)"
    using assms(1) by (auto simp: via_other_layer_def)
  then have via: "path_is_via_another_layer c path l package
           = Inr (\<exists>m \<in> set (butlast (tl path)).
                    \<exists>other \<in> set (layers c). other \<noteq> l \<and> m = layer_module package other)"
    using assms(2) by (simp add: path_is_via_another_layer_mem)
  have "check_pair l package g u d c
           = (if \<exists>m \<in> set (butlast (tl path)).
                    \<exists>other \<in> set (layers c). other \<noteq> l \<and> m = layer_module package other
              then Inr c
              else update_illegal_dependencies c path)"
    using assms(3,4) by (auto simp: check_pair_def via)
  with via show ?thesis by (rule conjI)
qed


theorem modules_queried_for_layer_witness:
  "distinct (layers example_contract) \<and> 2 < length (layers example_contract)
   \<and> get_modules_in_layer (layers example_contract ! 2) ''app'' nested_graph
       = [''app.high'', ''app.high.x'', ''app.high.x.y'']
   \<and> get_modules_in_downstream_layers example_contract (layers example_contract ! 2)
         ''app'' nested_graph
       = Inr [''app.mid'', ''app.low'']"
proof -
  have h1: "distinct (layers example_contract)"
    by (simp add: example_contract_def Contract_init_def example_layers_def)
  have h2: "2 < length (layers example_contract)"
    by (simp add: example_contract_def Contract_init_def example_layers_def)
  show ?thesis
    using h1 h2 modules_queried_for_layer [OF h1 h2, of "''app''" nested_graph]
    by (simp add: example_contract_def Contract_init_def example_layers_def layer_module_def
        nested_graph_def)
qed

theorem via_another_layer_exception_witness:
  "distinct (layers (with_deps example_contract []))
   \<and> Layer 2 ''high'' \<in> set (layers (with_deps example_contract []))
   \<and> find_path chain_graph ''app.low'' ''app.high''
         (whitelisted_paths (with_deps example_contract []))
       = Some [''app.low'', ''app.mid'', ''app.high'']
   \<and> check_pair (Layer 2 ''high'') ''app'' chain_graph ''app.high'' ''app.low''
         (with_deps example_contract [])
       = Inr (with_deps example_contract [])
   \<and> find_path chain_graph ''app.mid'' ''app.high''
         (whitelisted_paths (with_deps example_contract []))
       = Some [''app.mid'', ''app.high'']
   \<and> check_pair (Layer 2 ''high'') ''app'' chain_graph ''app.high'' ''app.mid''
         (with_deps example_contract [])
       = Inr (with_deps example_contract [[''app.mid'', ''app.high'']])"
proof -
  let ?c = "with_deps example_contract []"
  have h1: "distinct (layers ?c)"
    by (simp add: example_contract_def Contract_init_def example_layers_def)
  have h2: "Layer 2 ''high'' \<in> set (layers ?c)"
    by (simp add: example_contract_def Contract_init_def example_layers_def)
  have h3: "find_path chain_graph ''app.low'' ''app.high'' (whitelisted_paths ?c)
       = Some [''app.low'', ''app.mid'', ''app.high'']"
    by (simp add: example_contract_def Contract_init_def chain_graph_def)
  have h4: "find_path chain_graph ''app.mid'' ''app.high'' (whitelisted_paths ?c)
       = Some [''app.mid'', ''app.high'']"
    by (simp add: example_contract_def Contract_init_def chain_graph_def)
  have r1: "check_pair (Layer 2 ''high'') ''app'' chain_graph ''app.high'' ''app.low'' ?c = Inr ?c"
    using via_another_layer_exception [OF h1 h2 h3, of "''app''"]
    by (simp add: example_contract_def Contract_init_def example_layers_def layer_module_def)
  have r2: "check_pair (Layer 2 ''high'') ''app'' chain_graph ''app.high'' ''app.mid'' ?c
       = Inr (with_deps example_contract [[''app.mid'', ''app.high'']])"
    using via_another_layer_exception [OF h1 h2 h4, of "''app''"]
    by (simp add: update_illegal_dependencies_def update_paths_def)
  from h1 h2 h3 r1 h4 r2 show ?thesis by blast
qed

section \<open>Detection of an import from a lower layer\<close>


lemma pair_paths_iff:
  "q \<in> set (pair_paths c g package l u d) \<longleftrightarrow>
     find_path g d u (whitelisted_paths c) = Some q \<and> q \<noteq> []
     \<and> \<not> via_other_layer c q l package"
  by (auto simp: pair_paths_def split: option.splits)

lemma layer_paths_iff:
  "q \<in> set (layer_paths c g package l) \<longleftrightarrow>
     (\<exists>u \<in> set (get_modules_in_layer l package g).
        \<exists>d \<in> set (downstream_modules c l package).
          find_path g d u (whitelisted_paths c) = Some q \<and> q \<noteq> []
          \<and> \<not> via_other_layer c q l package)"
  by (simp add: layer_paths_def pair_paths_iff)

lemma submitted_paths_iff:
  "q \<in> set (submitted_paths c g) \<longleftrightarrow>
     (\<exists>package \<in> set (packages c). \<exists>l \<in> set (layers c).
        \<exists>u \<in> set (get_modules_in_layer l package g).
        \<exists>d \<in> set (downstream_modules c l package).
          find_path g d u (whitelisted_paths c) = Some q \<and> q \<noteq> []
          \<and> \<not> via_other_layer c q l package)"
  by (simp add: submitted_paths_def layer_paths_iff)

text \<open>
  Claim C1, amended. Take a graph whose \<open>find_path\<close> results start at the requested
  importer and end at the requested imported module. If, for a package of the contract
  and a declared layer, \<open>find_path\<close> from the own module of a layer below it to a
  module of the layer (its own module or a descendant the graph reports), ignoring the
  whitelisted edges, returns a non-empty path that does not go via another layer, then
  \<open>check_dependencies\<close> returns, \<open>is_kept\<close> is false afterwards, some recorded path
  has its node set inside that path's node set, and every recorded path is such a
  \<open>find_path\<close> result: its first element is the own module of a lower layer and its
  last element is a module of the higher layer it was searched for.
\<close>

theorem violation_recorded:
  assumes endpoints:
      "\<And>a b q. find_path g a b (whitelisted_paths c) = Some q \<Longrightarrow> q \<noteq> []
         \<Longrightarrow> hd q = a \<and> last q = b"
    and pkg: "package \<in> set (packages c)"
    and l: "l \<in> set (layers c)"
    and u: "u \<in> set (get_modules_in_layer l package g)"
    and downs: "get_modules_in_downstream_layers c l package g = Inr downs"
    and d: "d \<in> set downs"
    and found: "find_path g d u (whitelisted_paths c) = Some p"
    and nonempty: "p \<noteq> []"
    and direct: "path_is_via_another_layer c p l package = Inr False"
  shows "\<exists>c' deps. check_dependencies c g = Inr c' \<and> illegal_dependencies c' = Some deps
           \<and> is_kept c' = Inr False
           \<and> (\<exists>q \<in> set deps. set q \<subseteq> set p)
           \<and> (\<forall>q \<in> set deps.
                 \<exists>package' \<in> set (packages c). \<exists>l' \<in> set (layers c).
                 \<exists>u' \<in> set (get_modules_in_layer l' package' g). \<exists>downs'.
                   get_modules_in_downstream_layers c l' package' g = Inr downs'
                   \<and> (\<exists>d' \<in> set downs'.
                         find_path g d' u' (whitelisted_paths c) = Some q
                         \<and> path_is_via_another_layer c q l' package' = Inr False
                         \<and> hd q = d' \<and> last q = u'))"
proof -
  let ?deps = "foldl update_paths [] (submitted_paths c g)"
  have run: "check_dependencies c g = Inr (with_deps c ?deps)"
    by (rule check_dependencies_records)
  have d': "d \<in> set (downstream_modules c l package)"
    using downs d l by (simp add: get_modules_in_downstream_layers_mem)
  have "\<not> via_other_layer c p l package"
    using direct l by (simp add: path_is_via_another_layer_mem)
  with pkg l u d' found nonempty have sub: "p \<in> set (submitted_paths c g)"
    unfolding submitted_paths_iff by blast
  have dom: "dominated (set p) ?deps"
    using no_strict_subset_Nil sub by (rule dominated_foldl_new)
  then have covered: "\<exists>q \<in> set ?deps. set q \<subseteq> set p"
    by (simp add: dominated_def)
  then have "?deps \<noteq> []" by auto
  then have kept: "is_kept (with_deps c ?deps) = Inr False"
    by (simp add: is_kept_with_deps)
  have origin: "\<exists>package' \<in> set (packages c). \<exists>l' \<in> set (layers c).
                 \<exists>u' \<in> set (get_modules_in_layer l' package' g). \<exists>downs'.
                   get_modules_in_downstream_layers c l' package' g = Inr downs'
                   \<and> (\<exists>d' \<in> set downs'.
                         find_path g d' u' (whitelisted_paths c) = Some q
                         \<and> path_is_via_another_layer c q l' package' = Inr False
                         \<and> hd q = d' \<and> last q = u')"
    if q: "q \<in> set ?deps" for q
  proof -
    from q set_foldl_update_paths [of "[]" "submitted_paths c g"]
    have "q \<in> set (submitted_paths c g)" by auto
    then obtain package' l' u' d' where
      o: "package' \<in> set (packages c)" "l' \<in> set (layers c)"
         "u' \<in> set (get_modules_in_layer l' package' g)"
         "d' \<in> set (downstream_modules c l' package')"
         "find_path g d' u' (whitelisted_paths c) = Some q" "q \<noteq> []"
         "\<not> via_other_layer c q l' package'"
      unfolding submitted_paths_iff by blast
    have e: "hd q = d' \<and> last q = u'"
      using endpoints o(5,6) by blast
    have v: "path_is_via_another_layer c q l' package' = Inr False"
      using o(2,7) by (simp add: path_is_via_another_layer_mem)
    have g: "get_modules_in_downstream_layers c l' package' g
             = Inr (downstream_modules c l' package')"
      using o(2) by (rule get_modules_in_downstream_layers_mem)
    from o(1,2,3,4,5) e v g show ?thesis by blast
  qed
  from run kept covered origin show ?thesis
    by (intro exI [of _ "with_deps c ?deps"] exI [of _ ?deps]) simp
qed


lemmas example_defs =
  example_contract_def Contract_init_def example_layers_def layer_module_def
  check_dependencies_def check_layer_does_not_import_downstream_def check_pair_def
  get_modules_in_layer_def get_modules_in_downstream_layers_def get_layers_downstream_of_def
  path_is_via_another_layer_def list_remove_def update_illegal_dependencies_def
  update_paths_def with_deps_def is_kept_def

theorem violation_recorded_witness:
  "''app'' \<in> set (packages example_contract)
   \<and> Layer 2 ''high'' \<in> set (layers example_contract)
   \<and> ''app.high'' \<in> set (get_modules_in_layer (Layer 2 ''high'') ''app'' direct_graph)
   \<and> get_modules_in_downstream_layers example_contract (Layer 2 ''high'') ''app'' direct_graph
       = Inr [''app.mid'', ''app.low'']
   \<and> find_path direct_graph ''app.low'' ''app.high'' (whitelisted_paths example_contract)
       = Some [''app.low'', ''app.high'']
   \<and> path_is_via_another_layer example_contract [''app.low'', ''app.high'']
         (Layer 2 ''high'') ''app'' = Inr False
   \<and> (\<exists>c' deps. check_dependencies example_contract direct_graph = Inr c'
         \<and> illegal_dependencies c' = Some deps \<and> is_kept c' = Inr False
         \<and> (\<exists>q \<in> set deps. set q \<subseteq> set [''app.low'', ''app.high'']))
   \<and> check_dependencies example_contract direct_graph
       = Inr (with_deps example_contract [[''app.low'', ''app.high'']])"
proof -
  have h0: "\<And>a b q. find_path direct_graph a b (whitelisted_paths example_contract) = Some q
       \<Longrightarrow> q \<noteq> [] \<Longrightarrow> hd q = a \<and> last q = b"
    by (auto simp: direct_graph_def split: if_splits)
  have h1: "''app'' \<in> set (packages example_contract)"
    by (simp add: example_contract_def Contract_init_def)
  have h2: "Layer 2 ''high'' \<in> set (layers example_contract)"
    by (simp add: example_contract_def Contract_init_def example_layers_def)
  have h3: "''app.high'' \<in> set (get_modules_in_layer (Layer 2 ''high'') ''app'' direct_graph)"
    by (simp add: get_modules_in_layer_def layer_module_def Let_def)
  have h4: "get_modules_in_downstream_layers example_contract (Layer 2 ''high'') ''app''
              direct_graph = Inr [''app.mid'', ''app.low'']"
    by (simp add: example_defs)
  have h5: "''app.low'' \<in> set [''app.mid'', ''app.low'']"
    by simp
  have h6: "find_path direct_graph ''app.low'' ''app.high'' (whitelisted_paths example_contract)
       = Some [''app.low'', ''app.high'']"
    by (simp add: direct_graph_def example_contract_def Contract_init_def)
  have h7: "[''app.low'', ''app.high''] \<noteq> []"
    by simp
  have h8: "path_is_via_another_layer example_contract [''app.low'', ''app.high'']
         (Layer 2 ''high'') ''app'' = Inr False"
    by (simp add: example_defs)
  have run: "check_dependencies example_contract direct_graph
       = Inr (with_deps example_contract [[''app.low'', ''app.high'']])"
    by (simp add: example_defs direct_graph_def)
  from violation_recorded [OF h0 h1 h2 h3 h4 h5 h6 h7 h8]
  have "\<exists>c' deps. check_dependencies example_contract direct_graph = Inr c'
         \<and> illegal_dependencies c' = Some deps \<and> is_kept c' = Inr False
         \<and> (\<exists>q \<in> set deps. set q \<subseteq> set [''app.low'', ''app.high''])"
    by blast
  with h1 h2 h3 h4 h6 h8 run show ?thesis by blast
qed

text \<open>
  Claim C1 as stated fails. With the layers \<open>low\<close>, \<open>mid\<close>, \<open>high\<close>: the module
  \<open>app.low.x\<close> of the layer \<open>low\<close> imports \<open>app.high\<close> with nothing whitelisted, and
  the contract is reported as kept, since only the own module of a lower layer is
  searched from. And when \<open>app.low\<close> imports \<open>app.high\<close> through \<open>app.mid\<close>, no
  recorded path starts at \<open>app.low\<close> and ends at \<open>app.high\<close>: the path goes via the
  layer \<open>mid\<close> and the two edges are recorded in its place.
\<close>

theorem lower_layer_import_counterexample:
  "''app.low.x'' \<in> set (get_modules_in_layer (Layer 0 ''low'') ''app'' submodule_graph)
   \<and> ''app.high'' \<in> set (get_modules_in_layer (Layer 2 ''high'') ''app'' submodule_graph)
   \<and> find_path submodule_graph ''app.low.x'' ''app.high'' (whitelisted_paths example_contract)
       = Some [''app.low.x'', ''app.high'']
   \<and> check_dependencies example_contract submodule_graph = Inr (with_deps example_contract [])
   \<and> is_kept (with_deps example_contract []) = Inr True
   \<and> find_path chain_graph ''app.low'' ''app.high'' (whitelisted_paths example_contract)
       = Some [''app.low'', ''app.mid'', ''app.high'']
   \<and> check_dependencies example_contract chain_graph
       = Inr (with_deps example_contract
                [[''app.mid'', ''app.high''], [''app.low'', ''app.mid'']])"
proof -
  have a1: "''app.low.x'' \<in> set (get_modules_in_layer (Layer 0 ''low'') ''app'' submodule_graph)"
    by (simp add: get_modules_in_layer_def layer_module_def submodule_graph_def Let_def)
  have a2: "''app.high'' \<in> set (get_modules_in_layer (Layer 2 ''high'') ''app'' submodule_graph)"
    by (simp add: get_modules_in_layer_def layer_module_def Let_def)
  have a3: "find_path submodule_graph ''app.low.x'' ''app.high''
              (whitelisted_paths example_contract) = Some [''app.low.x'', ''app.high'']"
    by (simp add: submodule_graph_def example_contract_def Contract_init_def)
  have a4: "check_dependencies example_contract submodule_graph
              = Inr (with_deps example_contract [])"
    by (simp add: example_defs submodule_graph_def)
  have a5: "is_kept (with_deps example_contract []) = Inr True"
    by (simp add: is_kept_def with_deps_def)
  have a6: "find_path chain_graph ''app.low'' ''app.high'' (whitelisted_paths example_contract)
       = Some [''app.low'', ''app.mid'', ''app.high'']"
    by (simp add: chain_graph_def example_contract_def Contract_init_def)
  have a7: "check_dependencies example_contract chain_graph
       = Inr (with_deps example_contract
                [[''app.mid'', ''app.high''], [''app.low'', ''app.mid'']])"
    by (simp add: example_defs chain_graph_def)
  from a1 a2 a3 a4 a5 a6 a7 show ?thesis by blast
qed

section \<open>Validation of the whitelist at load time\<close>

lemma split_from_no_sep:
  "\<not> sublist sep s \<Longrightarrow> split_from sep acc s = [acc @ s]"
proof (induction s arbitrary: acc)
  case Nil
  then show ?case by simp
next
  case (Cons ch rest)
  from Cons.prems have np: "\<not> prefix sep (ch # rest)" and nr: "\<not> sublist sep rest"
    by (auto simp: sublist_Cons_right)
  show ?case using np Cons.IH [OF nr] by simp
qed

lemma str_split_no_sep: "\<not> sublist sep s \<Longrightarrow> str_split s sep = [s]"
  by (simp add: str_split_def split_from_no_sep)

lemma parse_whitelist_malformed:
  "w \<in> set ws \<Longrightarrow> \<not> sublist '' <- '' w \<Longrightarrow> parse_whitelist ws acc = Inl ValueError"
proof (induction ws arbitrary: acc)
  case Nil
  then show ?case by simp
next
  case (Cons a ws)
  show ?case
  proof (cases "a = w")
    case True
    with Cons.prems(2) show ?thesis by (simp add: str_split_no_sep)
  next
    case False
    with Cons have "\<And>acc. parse_whitelist ws acc = Inl ValueError" by simp
    then show ?thesis by (simp split: list.splits)
  qed
qed

lemma no_space_no_sep: "CHR '' '' \<notin> set s \<Longrightarrow> \<not> sublist '' <- '' s"
  by (auto simp: sublist_def)

lemma split_from_arrow:
  "CHR '' '' \<notin> set a \<Longrightarrow> CHR '' '' \<notin> set b \<Longrightarrow>
   split_from '' <- '' acc (a @ '' <- '' @ b) = [acc @ a, b]"
proof (induction a arbitrary: acc)
  case Nil
  have "split_from '' <- '' [] b = [b]"
    using split_from_no_sep [OF no_space_no_sep [OF Nil(2)], of "[]"] by simp
  then show ?case by simp
next
  case (Cons ch a)
  then have "ch \<noteq> CHR '' ''" by auto
  then have "\<not> prefix '' <- '' (ch # a @ '' <- '' @ b)" by simp
  then show ?case using Cons by simp
qed

lemma parse_whitelist_well_formed:
  "\<forall>(a, b) \<in> set pairs. CHR '' '' \<notin> set a \<and> CHR '' '' \<notin> set b \<Longrightarrow>
   parse_whitelist (map (\<lambda>(a, b). a @ '' <- '' @ b) pairs) acc
     = Inr (acc @ map (\<lambda>(a, b). ImportPath a b) pairs)"
proof (induction pairs arbitrary: acc)
  case Nil
  show ?case by simp
next
  case (Cons x pairs)
  obtain a b where x: "x = (a, b)" by (cases x)
  from Cons.prems x have ab: "CHR '' '' \<notin> set a" "CHR '' '' \<notin> set b"
    and rest: "\<forall>(a, b) \<in> set pairs. CHR '' '' \<notin> set a \<and> CHR '' '' \<notin> set b"
    by auto
  have "str_split (a @ '' <- '' @ b) '' <- '' = [a, b]"
    using split_from_arrow [OF ab, of "[]"] by (simp add: str_split_def)
  then show ?case
    using Cons.IH [OF rest] by (simp add: x)
qed

text \<open>
  Claim C8. When the whitelist of a configuration holds an entry without the separator
  \<open>" <- "\<close>, \<open>contract_from_yaml\<close> raises and builds no contract: \<open>ValueError\<close>, or
  \<open>KeyError\<close> when the key \<open>layers\<close> is missing, which is read first. When every
  entry is \<open>importer <- imported\<close> with two names free of spaces, the contract is built
  without error, its whitelist holds one \<open>ImportPath(importer, imported)\<close> per entry in
  the order of the entries, and it has not been checked yet.
\<close>

theorem whitelist_entries_validated:
  "(data_whitelisted_paths data = Some ws \<and> w \<in> set ws \<and> \<not> sublist '' <- '' w \<longrightarrow>
      contract_from_yaml key data
        = Inl (if data_layers data = None then KeyError else ValueError))
   \<and> ((\<forall>(a, b) \<in> set pairs. CHR '' '' \<notin> set a \<and> CHR '' '' \<notin> set b) \<longrightarrow>
      (\<exists>c. contract_from_yaml key
              \<lparr> data_packages = Some package_names, data_layers = Some layer_names,
                data_whitelisted_paths = Some (map (\<lambda>(a, b). a @ '' <- '' @ b) pairs) \<rparr>
            = Inr c
          \<and> whitelisted_paths c = map (\<lambda>(a, b). ImportPath a b) pairs
          \<and> illegal_dependencies c = None))"
proof (intro conjI impI)
  assume a: "data_whitelisted_paths data = Some ws \<and> w \<in> set ws \<and> \<not> sublist '' <- '' w"
  then have "parse_whitelist ws [] = Inl ValueError"
    by (blast intro: parse_whitelist_malformed)
  with a show "contract_from_yaml key data
        = Inl (if data_layers data = None then KeyError else ValueError)"
    by (auto simp: contract_from_yaml_def split: option.splits)
next
  assume "\<forall>(a, b) \<in> set pairs. CHR '' '' \<notin> set a \<and> CHR '' '' \<notin> set b"
  then have "parse_whitelist (map (\<lambda>(a, b). a @ '' <- '' @ b) pairs) []
     = Inr ([] @ map (\<lambda>(a, b). ImportPath a b) pairs)"
    by (rule parse_whitelist_well_formed)
  then show "\<exists>c. contract_from_yaml key
              \<lparr> data_packages = Some package_names, data_layers = Some layer_names,
                data_whitelisted_paths = Some (map (\<lambda>(a, b). a @ '' <- '' @ b) pairs) \<rparr>
            = Inr c
          \<and> whitelisted_paths c = map (\<lambda>(a, b). ImportPath a b) pairs
          \<and> illegal_dependencies c = None"
    by (simp add: contract_from_yaml_def Contract_init_def)
qed

theorem whitelist_entries_validated_witness:
  "''app.low -> app.high'' \<in> set [''app.mid <- app.low'', ''app.low -> app.high'']
   \<and> \<not> sublist '' <- '' ''app.low -> app.high''
   \<and> contract_from_yaml ''layering''
         \<lparr> data_packages = Some [''app''], data_layers = Some [''low'', ''high''],
           data_whitelisted_paths = Some [''app.mid <- app.low'', ''app.low -> app.high''] \<rparr>
       = Inl ValueError
   \<and> CHR '' '' \<notin> set ''app.mid'' \<and> CHR '' '' \<notin> set ''app.low''
   \<and> (\<exists>c. contract_from_yaml ''layering''
              \<lparr> data_packages = Some [''app''], data_layers = Some [''low'', ''high''],
                data_whitelisted_paths = Some [''app.mid <- app.low''] \<rparr> = Inr c
          \<and> whitelisted_paths c = [ImportPath ''app.mid'' ''app.low'']
          \<and> illegal_dependencies c = None)
   \<and> contract_from_yaml ''layering''
         \<lparr> data_packages = Some [''app''], data_layers = Some [''low'', ''high''],
           data_whitelisted_paths = Some [''app.mid <- app.low''] \<rparr>
       = Inr (Contract_init ''layering'' [''app''] [Layer 0 ''low'', Layer 1 ''high'']
                (Some [ImportPath ''app.mid'' ''app.low'']) False)"
proof -
  have h1: "''app.low -> app.high'' \<in> set [''app.mid <- app.low'', ''app.low -> app.high'']"
    by simp
  have h2: "\<not> sublist '' <- '' ''app.low -> app.high''"
    by (simp add: sublist_Cons_right)
  have h3: "\<forall>(a, b) \<in> set [(''app.mid'', ''app.low'')]. CHR '' '' \<notin> set a \<and> CHR '' '' \<notin> set b"
    by simp
  note r = whitelist_entries_validated
    [of "\<lparr> data_packages = Some [''app''], data_layers = Some [''low'', ''high''],
           data_whitelisted_paths = Some [''app.mid <- app.low'', ''app.low -> app.high''] \<rparr>"
        "[''app.mid <- app.low'', ''app.low -> app.high'']" "''app.low -> app.high''"
        "''layering''" "[(''app.mid'', ''app.low'')]" "[''app'']" "[''low'', ''high'']"]
  from r h1 h2 have c1: "contract_from_yaml ''layering''
         \<lparr> data_packages = Some [''app''], data_layers = Some [''low'', ''high''],
           data_whitelisted_paths = Some [''app.mid <- app.low'', ''app.low -> app.high''] \<rparr>
       = Inl ValueError"
    by simp
  have c2: "contract_from_yaml ''layering''
         \<lparr> data_packages = Some [''app''], data_layers = Some [''low'', ''high''],
           data_whitelisted_paths = Some [''app.mid <- app.low''] \<rparr>
       = Inr (Contract_init ''layering'' [''app''] [Layer 0 ''low'', Layer 1 ''high'']
                (Some [ImportPath ''app.mid'' ''app.low'']) False)"
    by (simp add: contract_from_yaml_def str_split_def)
  have h4: "CHR '' '' \<notin> set ''app.mid''" "CHR '' '' \<notin> set ''app.low''"
    by simp_all
  from r h3 have c3: "\<exists>c. contract_from_yaml ''layering''
              \<lparr> data_packages = Some [''app''], data_layers = Some [''low'', ''high''],
                data_whitelisted_paths = Some [''app.mid <- app.low''] \<rparr> = Inr c
          \<and> whitelisted_paths c = [ImportPath ''app.mid'' ''app.low'']
          \<and> illegal_dependencies c = None"
    by simp
  from h1 h2 c1 h4 c3 c2 show ?thesis by blast
qed

end
